theory Spec2Isabelle
  imports Main "HOL-Library.Word"
begin

unbundle bit_operations_syntax

section \<open>The X8H7 transport core (x8h7\_drv.c, x8h7.h)\<close>

text \<open>
  The driver packs sub-packets of several peripherals into one fixed-size frame, exchanges
  the frame with the H7 over SPI and dispatches the sub-packets of the frame received to
  the hooks the peripheral drivers registered. This theory embeds the frame buffer
  handling of \<^verbatim>\<open>x8h7_drv.c\<close>: \<^verbatim>\<open>x8h7_pkt_enq\<close>, \<^verbatim>\<open>pkt_parse\<close>,
  \<^verbatim>\<open>x8h7_spi_trx\<close>, \<^verbatim>\<open>x8h7_pkt_send\<close>, the three exported send functions,
  \<^verbatim>\<open>x8h7_hook_set\<close>, \<^verbatim>\<open>x8h7_dbg_set\<close> and \<^verbatim>\<open>x8h7_threaded_isr\<close>.
  The mutex is not modelled: every function below is one critical section.
\<close>

subsection \<open>Constants and wire structures\<close>

type_synonym u8 = "8 word"
type_synonym u16 = "16 word"

text \<open>
  A C pointer to bytes is modelled by the memory it points to: \<open>m i\<close> is the byte at
  \<^verbatim>\<open>ptr + i\<close>. A buffer allocated with \<^verbatim>\<open>X8H7_BUF_SIZE\<close> bytes owns the offsets
  below \<open>X8H7_BUF_SIZE\<close>; the offsets from there on are whatever memory follows the
  allocation.
\<close>

type_synonym memory = "nat \<Rightarrow> u8"

definition X8H7_BUF_SIZE :: nat where
  "X8H7_BUF_SIZE = 256"

definition FIXED_PACKET_LEN :: nat where
  "FIXED_PACKET_LEN = X8H7_BUF_SIZE"

definition X8H7_PKT_SIZE :: nat where
  "X8H7_PKT_SIZE = X8H7_BUF_SIZE - 8"

definition X8H7_PERIPH_NUM :: nat where
  "X8H7_PERIPH_NUM = 16"

text \<open>\<^verbatim>\<open>ENOMEM\<close> and \<^verbatim>\<open>IRQ_HANDLED\<close> come from the kernel headers.\<close>

definition ENOMEM :: int where
  "ENOMEM = 12"

definition IRQ_HANDLED :: int where
  "IRQ_HANDLED = 1"

text \<open>\<^verbatim>\<open>sizeof(x8h7_pkthdr_t)\<close> and \<^verbatim>\<open>sizeof(x8h7_subpkt_t)\<close>: both packed, 4 bytes.\<close>

definition sizeof_pkthdr :: nat where
  "sizeof_pkthdr = 4"

definition sizeof_subpkt :: nat where
  "sizeof_subpkt = 4"

text \<open>
  \<^verbatim>\<open>x8h7_pkt_t\<close>, the copy of a sub-packet a hook receives. \<open>pkt_data\<close> holds the
  \<open>pkt_size\<close> bytes copied into \<^verbatim>\<open>p.data\<close>; the rest of that array is not initialised
  by the driver.
\<close>

record x8h7_pkt_t =
  pkt_peripheral :: u8
  pkt_opcode :: u8
  pkt_size :: u16
  pkt_data :: "u8 list"

text \<open>The fields of \<^verbatim>\<open>struct spidev_data\<close> the frame handling uses.\<close>

record spidev_data =
  x8h7_txb :: memory
  x8h7_txl :: u16
  x8h7_rxb :: memory

text \<open>
  The global hook table and the debug hook. A function pointer is a value of \<open>'h\<close>, its
  \<^verbatim>\<open>priv\<close> argument a value of \<open>'p\<close>; \<open>None\<close> is the null pointer.
\<close>

record ('h, 'p) hooks =
  x8h7_hook :: "nat \<Rightarrow> 'h option"
  x8h7_hook_priv :: "nat \<Rightarrow> 'p option"
  x8h7_dbg :: "'h option"
  x8h7_dbg_priv :: "'p option"

text \<open>
  What the driver does to the outside: a call of a peripheral's hook with its
  \<^verbatim>\<open>priv\<close> and the packet copy, or a call of the debug hook with its \<^verbatim>\<open>priv\<close>, the
  receive buffer and the header's size.
\<close>

datatype ('h, 'p) call =
  Hook 'h "'p option" x8h7_pkt_t
| Dbg 'h "'p option" "u8 list" u16

text \<open>
  A function either returns, or reads a byte outside the receive buffer: C gives no
  meaning to the run from there on, so the model stops with the offset of the first such
  byte.
\<close>

datatype 'a outcome =
  Returned 'a
| OutOfBounds nat

subsection \<open>Memory access\<close>

text \<open>Multi-byte fields are little-endian.\<close>

definition load16 :: "memory \<Rightarrow> nat \<Rightarrow> u16" where
  "load16 m a = word_cat (m (a + 1)) (m a)"

definition store16 :: "memory \<Rightarrow> nat \<Rightarrow> u16 \<Rightarrow> memory" where
  "store16 m a v = (m(a := ucast v))(a + 1 := ucast (drop_bit 8 v))"

definition memset :: "memory \<Rightarrow> nat \<Rightarrow> u8 \<Rightarrow> nat \<Rightarrow> memory" where
  "memset m a c n = (\<lambda>i. if a \<le> i \<and> i < a + n then c else m i)"

text \<open>\<open>memcpy\<close> reads \<open>n\<close> bytes of the caller's object \<open>src\<close>, which must hold that many.\<close>

definition memcpy :: "memory \<Rightarrow> nat \<Rightarrow> u8 list \<Rightarrow> nat \<Rightarrow> memory" where
  "memcpy m a src n = (\<lambda>i. if a \<le> i \<and> i < a + n then src ! (i - a) else m i)"

text \<open>The bytes \<open>a, \<dots>, a + n - 1\<close> of a memory.\<close>

definition bytes :: "memory \<Rightarrow> nat \<Rightarrow> nat \<Rightarrow> u8 list" where
  "bytes m a n = map m [a..<a + n]"

text \<open>\<^verbatim>\<open>hdr->size\<close> and \<^verbatim>\<open>hdr->checksum\<close> of the frame header at the start of a buffer.\<close>

definition hdr_size :: "memory \<Rightarrow> u16" where
  "hdr_size m = load16 m 0"

definition hdr_checksum :: "memory \<Rightarrow> u16" where
  "hdr_checksum m = load16 m 2"

subsection \<open>x8h7\_pkt\_enq\<close>

text \<open>
  The sum in the capacity test is computed in \<^verbatim>\<open>size_t\<close> and cannot wrap; the additions
  into \<^verbatim>\<open>hdr->size\<close> are 16-bit. \<open>data = None\<close> is the null pointer. The stores go
  where the pointer points, also past the end of the buffer.
\<close>

definition x8h7_pkt_enq ::
  "spidev_data \<Rightarrow> u8 \<Rightarrow> u8 \<Rightarrow> u16 \<Rightarrow> u8 list option \<Rightarrow> int \<times> spidev_data" where
  "x8h7_pkt_enq spidev peripheral opcode sz data =
    (let txb = x8h7_txb spidev in
     if unat (hdr_size txb) + sizeof_subpkt + unat sz < X8H7_BUF_SIZE then
       let pkt = sizeof_pkthdr + unat (hdr_size txb);
           txb = txb(pkt := peripheral);
           txb = txb(pkt + 1 := opcode);
           txb = store16 txb (pkt + 2) sz;
           ptr = pkt + sizeof_subpkt;
           txb = (if sz \<noteq> 0 then
                    (case data of
                       None \<Rightarrow> memset txb ptr 0 (unat sz)
                     | Some d \<Rightarrow> memcpy txb ptr d (unat sz))
                  else txb);
           txb = store16 txb 0 (hdr_size txb + 4 + sz);
           txb = store16 txb 2 (hdr_size txb XOR 0x5555)
       in (0, spidev\<lparr>x8h7_txb := txb, x8h7_txl := hdr_size txb\<rparr>)
     else (- ENOMEM, spidev))"

subsection \<open>pkt\_parse\<close>

text \<open>
  One round of the \<^verbatim>\<open>do ... while (size > 0)\<close> loop starts with \<^verbatim>\<open>ptr\<close> at offset
  \<open>pkt\<close> of the receive buffer, the remaining size \<open>sz\<close> and the hook calls made so far.
  \<^verbatim>\<open>pkt->peripheral\<close> is read first; \<^verbatim>\<open>pkt->size\<close> is read unless the peripheral is 0;
  \<^verbatim>\<open>pkt->opcode\<close> and the payload are read when the peripheral has a hook. The copy
  into \<^verbatim>\<open>p.data\<close> is clamped to \<open>X8H7_PKT_SIZE\<close>.
\<close>

function pkt_parse_loop ::
  "('h, 'p) hooks \<Rightarrow> memory \<Rightarrow> nat \<Rightarrow> u16 \<Rightarrow> ('h, 'p) call list
    \<Rightarrow> ('h, 'p) call list \<times> int outcome" where
  "pkt_parse_loop hooks rxb pkt sz calls =
    (if X8H7_BUF_SIZE \<le> pkt then (calls, OutOfBounds pkt)
     else
       let i = unat (rxb pkt);
           ptr = pkt + sizeof_subpkt
       in
       if i < X8H7_PERIPH_NUM \<and> rxb pkt = 0 then (calls, Returned 0)
       else if X8H7_BUF_SIZE < ptr then (calls, OutOfBounds (max X8H7_BUF_SIZE (pkt + 2)))
       else
         let psize = load16 rxb (pkt + 2);
             p_size = (if X8H7_PKT_SIZE < unat psize then of_nat X8H7_PKT_SIZE else psize)
         in
         if i < X8H7_PERIPH_NUM \<and> psize = 0 then (calls, Returned 0)
         else if i < X8H7_PERIPH_NUM \<and> x8h7_hook hooks i \<noteq> None
                 \<and> X8H7_BUF_SIZE < ptr + unat p_size
           then (calls, OutOfBounds X8H7_BUF_SIZE)
         else
           let calls =
                 (if i < X8H7_PERIPH_NUM then
                    (case x8h7_hook hooks i of
                       None \<Rightarrow> calls
                     | Some h \<Rightarrow>
                         calls @ [Hook h (x8h7_hook_priv hooks i)
                           \<lparr>pkt_peripheral = rxb pkt,
                            pkt_opcode = rxb (pkt + 1),
                            pkt_size = p_size,
                            pkt_data = bytes rxb ptr (unat p_size)\<rparr>])
                  else calls)
           in
           if sz - (4 + psize) \<noteq> 0
           then pkt_parse_loop hooks rxb (ptr + unat psize) (sz - (4 + psize)) calls
           else (calls, Returned 0))"
  by pat_completeness auto
termination
  by (relation "measure (\<lambda>(hooks, rxb, pkt, sz, calls). X8H7_BUF_SIZE - pkt)")
     (auto simp: sizeof_subpkt_def)

text \<open>
  \<^verbatim>\<open>pkt_dump\<close> is empty unless \<^verbatim>\<open>DEBUG\<close> is defined, which it is not. \<^verbatim>\<open>pkt_parse\<close>
  starts the loop behind the frame header with the header's size.
\<close>

definition pkt_parse ::
  "('h, 'p) hooks \<Rightarrow> spidev_data \<Rightarrow> ('h, 'p) call list \<times> int outcome" where
  "pkt_parse hooks spidev =
     pkt_parse_loop hooks (x8h7_rxb spidev) sizeof_pkthdr (hdr_size (x8h7_rxb spidev)) []"

subsection \<open>The exchange\<close>

text \<open>
  \<^verbatim>\<open>spi_sync\<close> is the kernel's transfer: given the bytes sent it yields its status
  (0, or a negative errno) and the bytes it received. \<^verbatim>\<open>x8h7_spi_trx\<close> hands the
  status on; the bytes received land at the start of \<^verbatim>\<open>rx_buf\<close>, and what the
  transfer did not deliver stays as it was.
\<close>

type_synonym spi_sync = "u8 list \<Rightarrow> int \<times> u8 list"

definition x8h7_spi_trx :: "spi_sync \<Rightarrow> memory \<Rightarrow> memory \<Rightarrow> nat \<Rightarrow> int \<times> memory" where
  "x8h7_spi_trx spi tx_buf rx_buf len =
     (let (ret, rx) = spi (bytes tx_buf 0 len)
      in (ret, memcpy rx_buf 0 rx (min len (length rx))))"

text \<open>
  \<^verbatim>\<open>x8h7_pkt_send\<close> calls \<^verbatim>\<open>x8h7_spi_trx\<close> as a statement: the status is dropped.
  When the header received has a size, the frame goes to the debug hook if one is set and
  to \<^verbatim>\<open>pkt_parse\<close> otherwise; then both buffers are cleared and 0 is returned.
\<close>

definition x8h7_pkt_send ::
  "('h, 'p) hooks \<Rightarrow> spi_sync \<Rightarrow> spidev_data
    \<Rightarrow> ('h, 'p) call list \<times> (int \<times> spidev_data) outcome" where
  "x8h7_pkt_send hooks spi spidev =
     (let len = FIXED_PACKET_LEN;
          (ret, rxb) = x8h7_spi_trx spi (x8h7_txb spidev) (x8h7_rxb spidev) len;
          spidev = spidev\<lparr>x8h7_rxb := rxb\<rparr>;
          (calls, parsed) =
            (if hdr_size (x8h7_rxb spidev) \<noteq> 0 then
               (case x8h7_dbg hooks of
                  Some dbg \<Rightarrow>
                    ([Dbg dbg (x8h7_dbg_priv hooks) (bytes (x8h7_rxb spidev) 0 X8H7_BUF_SIZE)
                        (hdr_size (x8h7_rxb spidev))], Returned 0)
                | None \<Rightarrow> pkt_parse hooks spidev)
             else ([], Returned 0))
      in case parsed of
           OutOfBounds a \<Rightarrow> (calls, OutOfBounds a)
         | Returned _ \<Rightarrow>
             (calls, Returned (0,
                spidev\<lparr>x8h7_txb := memset (x8h7_txb spidev) 0 0 X8H7_BUF_SIZE,
                       x8h7_rxb := memset (x8h7_rxb spidev) 0 0 X8H7_BUF_SIZE,
                       x8h7_txl := 0\<rparr>)))"

subsection \<open>The entry points\<close>

definition x8h7_pkt_send_sync ::
  "('h, 'p) hooks \<Rightarrow> spi_sync \<Rightarrow> spidev_data \<Rightarrow> u8 \<Rightarrow> u8 \<Rightarrow> u16 \<Rightarrow> u8 list option
    \<Rightarrow> ('h, 'p) call list \<times> (int \<times> spidev_data) outcome" where
  "x8h7_pkt_send_sync hooks spi spidev peripheral opcode sz data =
     (let (ret, spidev) = x8h7_pkt_enq spidev peripheral opcode sz data
      in if ret < 0 then ([], Returned (ret, spidev))
         else
           (case x8h7_pkt_send hooks spi spidev of
              (calls, OutOfBounds a) \<Rightarrow> (calls, OutOfBounds a)
            | (calls, Returned (ret, spidev)) \<Rightarrow>
                if ret < 0 then (calls, Returned (ret, spidev))
                else (calls, Returned (ret, spidev))))"

definition x8h7_pkt_send_defer ::
  "spidev_data \<Rightarrow> u8 \<Rightarrow> u8 \<Rightarrow> u16 \<Rightarrow> u8 list option \<Rightarrow> int \<times> spidev_data" where
  "x8h7_pkt_send_defer spidev peripheral opcode sz data =
     x8h7_pkt_enq spidev peripheral opcode sz data"

definition x8h7_pkt_send_now ::
  "('h, 'p) hooks \<Rightarrow> spi_sync \<Rightarrow> spidev_data
    \<Rightarrow> ('h, 'p) call list \<times> (int \<times> spidev_data) outcome" where
  "x8h7_pkt_send_now hooks spi spidev = x8h7_pkt_send hooks spi spidev"

text \<open>The interrupt handler runs the exchange and returns \<^verbatim>\<open>IRQ_HANDLED\<close>.\<close>

definition x8h7_threaded_isr ::
  "('h, 'p) hooks \<Rightarrow> spi_sync \<Rightarrow> spidev_data
    \<Rightarrow> ('h, 'p) call list \<times> (int \<times> spidev_data) outcome" where
  "x8h7_threaded_isr hooks spi spidev =
     (case x8h7_pkt_send hooks spi spidev of
        (calls, OutOfBounds a) \<Rightarrow> (calls, OutOfBounds a)
      | (calls, Returned (ret, spidev)) \<Rightarrow> (calls, Returned (IRQ_HANDLED, spidev)))"

subsection \<open>The hook table\<close>

definition x8h7_hook_set ::
  "('h, 'p) hooks \<Rightarrow> u8 \<Rightarrow> 'h option \<Rightarrow> 'p option \<Rightarrow> int \<times> ('h, 'p) hooks" where
  "x8h7_hook_set hooks idx hook priv =
     (if X8H7_PERIPH_NUM \<le> unat idx then (- 1, hooks)
      else (0, hooks\<lparr>x8h7_hook := (x8h7_hook hooks)(unat idx := hook),
                     x8h7_hook_priv := (x8h7_hook_priv hooks)(unat idx := priv)\<rparr>))"

definition x8h7_dbg_set ::
  "('h, 'p) hooks \<Rightarrow> 'h option \<Rightarrow> 'p option \<Rightarrow> int \<times> ('h, 'p) hooks" where
  "x8h7_dbg_set hooks hook priv = (0, hooks\<lparr>x8h7_dbg := hook, x8h7_dbg_priv := priv\<rparr>)"

text \<open>
  The state \<^verbatim>\<open>x8h7_probe\<close> leaves: both buffers zeroed (\<^verbatim>\<open>devm_kzalloc\<close>, then
  \<^verbatim>\<open>memset\<close>), nothing pending; and the hook table of a freshly loaded module.
\<close>

definition probed :: spidev_data where
  "probed = \<lparr>x8h7_txb = (\<lambda>i. 0), x8h7_txl = 0, x8h7_rxb = (\<lambda>i. 0)\<rparr>"

definition no_hooks :: "('h, 'p) hooks" where
  "no_hooks = \<lparr>x8h7_hook = (\<lambda>i. None), x8h7_hook_priv = (\<lambda>i. None),
               x8h7_dbg = None, x8h7_dbg_priv = None\<rparr>"

subsection \<open>Sequences of enqueue calls and the wire format\<close>

text \<open>
  The arguments of one \<^verbatim>\<open>x8h7_pkt_enq\<close> call, and a producer making the calls of a
  list one after the other, keeping every return value.
\<close>

type_synonym enq_args = "u8 \<times> u8 \<times> u16 \<times> u8 list option"

fun enq_calls :: "spidev_data \<Rightarrow> enq_args list \<Rightarrow> int list \<times> spidev_data" where
  "enq_calls spidev [] = ([], spidev)"
| "enq_calls spidev ((peripheral, opcode, sz, data) # cs) =
     (let (ret, spidev) = x8h7_pkt_enq spidev peripheral opcode sz data;
          (rets, spidev) = enq_calls spidev cs
      in (ret # rets, spidev))"

text \<open>The caller's object holds the bytes \<^verbatim>\<open>memcpy\<close> reads.\<close>

fun holds :: "enq_args \<Rightarrow> bool" where
  "holds (peripheral, opcode, sz, None) = True"
| "holds (peripheral, opcode, sz, Some d) = (unat sz \<le> length d)"

text \<open>The peripheral is one of 1, \<dots>, 15 and the payload is not empty.\<close>

fun addressed :: "enq_args \<Rightarrow> bool" where
  "addressed (peripheral, opcode, sz, data) =
     (0 < unat peripheral \<and> unat peripheral < X8H7_PERIPH_NUM \<and> sz \<noteq> 0)"

text \<open>
  The payload of a call (zeros for a null pointer), the bytes of its sub-packet record
  (\<^verbatim>\<open>x8h7_subpkt_t\<close>, then the payload), and the hook call the sub-packet is due:
  none when its peripheral has no hook.
\<close>

fun payload :: "enq_args \<Rightarrow> u8 list" where
  "payload (peripheral, opcode, sz, None) = replicate (unat sz) 0"
| "payload (peripheral, opcode, sz, Some d) = take (unat sz) d"

fun subpkt :: "enq_args \<Rightarrow> u8 list" where
  "subpkt (peripheral, opcode, sz, data) =
     [peripheral, opcode, ucast sz, ucast (drop_bit 8 sz)]
       @ payload (peripheral, opcode, sz, data)"

fun dispatched :: "('h, 'p) hooks \<Rightarrow> enq_args \<Rightarrow> ('h, 'p) call list" where
  "dispatched hooks (peripheral, opcode, sz, data) =
     (case x8h7_hook hooks (unat peripheral) of
        None \<Rightarrow> []
      | Some h \<Rightarrow>
          [Hook h (x8h7_hook_priv hooks (unat peripheral))
             \<lparr>pkt_peripheral = peripheral, pkt_opcode = opcode, pkt_size = sz,
              pkt_data = payload (peripheral, opcode, sz, data)\<rparr>])"

text \<open>A wire that hands back the frame it was sent, and the state after a transfer on it.\<close>

definition loopback :: spi_sync where
  "loopback tx = (0, tx)"

definition looped :: "spidev_data \<Rightarrow> spidev_data" where
  "looped spidev =
     spidev\<lparr>x8h7_rxb :=
       snd (x8h7_spi_trx loopback (x8h7_txb spidev) (x8h7_rxb spidev) FIXED_PACKET_LEN)\<rparr>"

text \<open>Both buffers hold zeros only and nothing is pending.\<close>

definition cleared :: "spidev_data \<Rightarrow> bool" where
  "cleared spidev =
     (bytes (x8h7_txb spidev) 0 X8H7_BUF_SIZE = replicate X8H7_BUF_SIZE 0
      \<and> bytes (x8h7_rxb spidev) 0 X8H7_BUF_SIZE = replicate X8H7_BUF_SIZE 0
      \<and> x8h7_txl spidev = 0)"

text \<open>
  The record at offset \<open>pkt\<close> of a receive buffer makes \<^verbatim>\<open>pkt_parse\<close> return:
  its peripheral is 0, or its peripheral is below \<open>X8H7_PERIPH_NUM\<close> and its size is
  0; the fields read lie inside the buffer.
\<close>

definition terminator :: "memory \<Rightarrow> nat \<Rightarrow> bool" where
  "terminator rxb pkt =
     ((pkt < X8H7_BUF_SIZE \<and> rxb pkt = 0)
      \<or> (pkt + sizeof_subpkt \<le> X8H7_BUF_SIZE \<and> unat (rxb pkt) < X8H7_PERIPH_NUM
          \<and> load16 rxb (pkt + 2) = 0))"

text \<open>
  The packet of a hook call holds as many bytes as its size says, and at most
  \<open>X8H7_PKT_SIZE\<close>, the length of \<^verbatim>\<open>p.data\<close>.
\<close>

fun clamped :: "('h, 'p) call \<Rightarrow> bool" where
  "clamped (Hook h p k) =
     (length (pkt_data k) = unat (pkt_size k) \<and> unat (pkt_size k) \<le> X8H7_PKT_SIZE)"
| "clamped (Dbg h p frame n) = True"

text \<open>The hook of a call, if it is a hook call, was not the one of index 0.\<close>

fun not_hook0 :: "('h, 'p) call \<Rightarrow> bool" where
  "not_hook0 (Hook h p k) = (pkt_peripheral k \<noteq> 0)"
| "not_hook0 (Dbg h p frame n) = True"

subsection \<open>Concrete frames and states\<close>

text \<open>The state once a transfer has put \<open>frame\<close> into the receive buffer.\<close>

definition received :: "u8 list \<Rightarrow> spidev_data" where
  "received frame =
     probed\<lparr>x8h7_rxb := memcpy (x8h7_rxb probed) 0 frame (length frame)\<rparr>"

text \<open>
  Hooks 11 and 12 registered for the peripherals 1 and 2; the same table with the debug
  hook 99.
\<close>

definition two_hooks :: "(nat, nat) hooks" where
  "two_hooks =
     snd (x8h7_hook_set (snd (x8h7_hook_set no_hooks 1 (Some 11) None)) 2 (Some 12) None)"

definition tapped :: "(nat, nat) hooks" where
  "tapped = snd (x8h7_dbg_set two_hooks (Some 99) None)"

text \<open>A transfer that fails with \<^verbatim>\<open>-EIO\<close> and delivers nothing.\<close>

definition broken_spi :: spi_sync where
  "broken_spi tx = (- 5, [])"

text \<open>
  A frame of size 6 whose checksum field is 0 instead of \<open>0x5553\<close>, holding one
  sub-packet for peripheral 1.
\<close>

definition bad_checksum_frame :: "u8 list" where
  "bad_checksum_frame = [6, 0, 0, 0, 1, 0x10, 2, 0, 0xAA, 0xBB] @ replicate 246 0"

text \<open>A transfer that fails with \<^verbatim>\<open>-EIO\<close> after the frame came in.\<close>

definition late_failure :: spi_sync where
  "late_failure tx = (- 5, bad_checksum_frame)"


text \<open>
  A frame of size 10 with its checksum: a record of peripheral 16 with no payload, then a
  sub-packet for peripheral 1.
\<close>

definition skipped_frame :: "u8 list" where
  "skipped_frame =
     [10, 0, 0x5F, 0x55, 16, 0, 0, 0, 1, 0x10, 2, 0, 0xAA, 0xBB] @ replicate 242 0"

text \<open>
  A frame of size 16 with its checksum: a sub-packet for peripheral 1, a record of
  peripheral 0, then a sub-packet for peripheral 2.
\<close>

definition terminated_frame :: "u8 list" where
  "terminated_frame =
     [16, 0, 0x45, 0x55, 1, 0x10, 2, 0, 0xAA, 0xBB, 0, 0, 0, 0, 2, 1, 2, 0, 0xCC, 0xDD]
       @ replicate 236 0"

text \<open>
  A frame whose header says 256 bytes, with the matching checksum \<open>0x5455\<close>: one
  sub-packet of 248 bytes fills the buffer, and 4 bytes are still to come.
\<close>

definition overlong_frame :: "u8 list" where
  "overlong_frame = [0, 1, 0x55, 0x54, 1, 0x10, 0xF8, 0] @ replicate 248 0x77"

text \<open>Payloads of 250 and 251 bytes, each passing the capacity test on an empty buffer.\<close>

definition oversize :: enq_args where
  "oversize = (1, 0x10, 250, Some (replicate 250 0x77))"

definition overrun :: "int \<times> spidev_data" where
  "overrun = x8h7_pkt_enq probed 1 0x10 251 (Some (replicate 251 0x77))"

text \<open>The buffer after a payload of 248 bytes: the header's size is 252.\<close>

definition full :: spidev_data where
  "full = snd (x8h7_pkt_enq probed 3 1 248 None)"

text \<open>The two calls of the scenario, and two calls that fit and have payloads.\<close>

definition scenario :: "enq_args list" where
  "scenario = [(1, 0x10, 2, Some [0xAA, 0xBB]), (2, 0x01, 0, Some [])]"

definition two_calls :: "enq_args list" where
  "two_calls = [(1, 0x10, 2, Some [0xAA, 0xBB]), (2, 0x01, 3, None)]"

section \<open>Properties\<close>

subsection \<open>Bytes, words and buffers\<close>

declare pkt_parse_loop.simps [simp del]

lemma cat_split:
  "word_cat (ucast (drop_bit 8 (v :: u16)) :: u8) (ucast v :: u8) = v"
  by (rule bit_word_eqI) (auto simp: bit_word_cat_iff bit_ucast_iff bit_drop_bit_eq)

lemma load16_store16 [simp]: "load16 (store16 m a v) a = v"
  by (simp add: load16_def store16_def cat_split)

lemma load16_store16_other [simp]:
  "b + 1 < a \<or> a + 1 < b \<Longrightarrow> load16 (store16 m a v) b = load16 m b"
  by (auto simp: load16_def store16_def)

lemma length_bytes [simp]: "length (bytes m a n) = n"
  by (simp add: bytes_def)

lemma nth_bytes [simp]: "i < n \<Longrightarrow> bytes m a n ! i = m (a + i)"
  by (simp add: bytes_def)

lemma bytes_add: "bytes m a (n + k) = bytes m a n @ bytes m (a + n) k"
  by (rule nth_equalityI) (auto simp: nth_append)

lemma bytes_4: "bytes m a 4 = [m a, m (a + 1), m (a + 2), m (a + 3)]"
  by (rule nth_equalityI) (auto simp: less_Suc_eq numeral_eq_Suc)

lemma bytes_cong:
  "(\<And>i. a \<le> i \<Longrightarrow> i < a + n \<Longrightarrow> m i = m' i) \<Longrightarrow> bytes m a n = bytes m' a n"
  by (simp add: bytes_def)

lemma length_payload: "holds c \<Longrightarrow> length (payload c) = unat (fst (snd (snd c)))"
  by (cases c rule: payload.cases) auto

lemma length_subpkt: "holds c \<Longrightarrow> length (subpkt c) = 4 + unat (fst (snd (snd c)))"
  by (cases c rule: payload.cases) auto

lemmas enq_unfold =
  x8h7_pkt_enq_def sizeof_subpkt_def sizeof_pkthdr_def Let_def store16_def memset_def memcpy_def

text \<open>
  One accepted call appends the sub-packet record behind those queued, adds its length to
  the header's size and leaves the records queued before as they were.
\<close>

lemma enq_accept:
  assumes fit: "unat (hdr_size (x8h7_txb s)) + 4 + unat sz < X8H7_BUF_SIZE"
  shows "fst (x8h7_pkt_enq s p opc sz d) = 0"
    and "hdr_size (x8h7_txb (snd (x8h7_pkt_enq s p opc sz d))) = hdr_size (x8h7_txb s) + 4 + sz"
    and "\<And>i. 4 \<le> i \<Longrightarrow>
           i < 4 + unat (hdr_size (x8h7_txb s))
             \<or> 4 + unat (hdr_size (x8h7_txb s)) + 4 + unat sz \<le> i \<Longrightarrow>
           x8h7_txb (snd (x8h7_pkt_enq s p opc sz d)) i = x8h7_txb s i"
    and "holds (p, opc, sz, d) \<Longrightarrow>
           bytes (x8h7_txb (snd (x8h7_pkt_enq s p opc sz d)))
             (4 + unat (hdr_size (x8h7_txb s))) (4 + unat sz)
           = subpkt (p, opc, sz, d)"
proof -
  let ?txb = "x8h7_txb (snd (x8h7_pkt_enq s p opc sz d))"
  let ?pkt = "4 + unat (hdr_size (x8h7_txb s))"
  show "fst (x8h7_pkt_enq s p opc sz d) = 0"
    using fit by (simp add: enq_unfold)
  show "hdr_size ?txb = hdr_size (x8h7_txb s) + 4 + sz"
    using fit
    by (cases d) (simp_all add: enq_unfold hdr_size_def load16_def cat_split)
  show "?txb i = x8h7_txb s i"
    if "4 \<le> i" "i < ?pkt \<or> ?pkt + 4 + unat sz \<le> i" for i
    using fit that by (cases d) (auto simp add: enq_unfold)
  show "bytes ?txb ?pkt (4 + unat sz) = subpkt (p, opc, sz, d)" if "holds (p, opc, sz, d)"
  proof -
    have header: "bytes ?txb ?pkt 4 = [p, opc, ucast sz, ucast (drop_bit 8 sz)]"
      using fit by (cases d) (simp_all add: bytes_4 enq_unfold)
    have data: "bytes ?txb (?pkt + 4) (unat sz) = payload (p, opc, sz, d)"
    proof (rule nth_equalityI)
      show "length (bytes ?txb (?pkt + 4) (unat sz)) = length (payload (p, opc, sz, d))"
        using that by (cases d) simp_all
      show "bytes ?txb (?pkt + 4) (unat sz) ! i = payload (p, opc, sz, d) ! i"
        if "i < length (bytes ?txb (?pkt + 4) (unat sz))" for i
        using fit that by (cases d) (auto simp add: enq_unfold)
    qed
    show ?thesis
      using header data by (simp only: bytes_add subpkt.simps)
  qed
qed

text \<open>
  After a sequence of accepted calls the header's size is the length of the records, and
  the records lie one behind the other from offset 4 on.
\<close>

lemma enq_calls_layout:
  assumes "enq_calls s cs = (rets, s')" "set rets \<subseteq> {0}" "list_all holds cs"
  shows "unat (hdr_size (x8h7_txb s')) = unat (hdr_size (x8h7_txb s)) + length (concat (map subpkt cs))
         \<and> (cs \<noteq> [] \<longrightarrow> unat (hdr_size (x8h7_txb s')) < X8H7_BUF_SIZE)
         \<and> bytes (x8h7_txb s') (4 + unat (hdr_size (x8h7_txb s))) (length (concat (map subpkt cs))) = concat (map subpkt cs)
         \<and> (\<forall>i. 4 \<le> i \<and> (i < 4 + unat (hdr_size (x8h7_txb s)) \<or> 4 + unat (hdr_size (x8h7_txb s')) \<le> i) \<longrightarrow> x8h7_txb s' i = x8h7_txb s i)"
  using assms
proof (induction cs arbitrary: s rets)
  case Nil
  then show ?case by (simp add: bytes_def)
next
  case (Cons c cs)
  obtain p opc sz d where c: "c = (p, opc, sz, d)" by (cases c) auto
  obtain r s1 where e: "x8h7_pkt_enq s p opc sz d = (r, s1)" by (cases "x8h7_pkt_enq s p opc sz d") auto
  obtain rs where rest: "enq_calls s1 cs = (rs, s')" and rets: "rets = r # rs"
    using Cons.prems(1) c e by (auto split: prod.splits)
  have r0: "r = 0" and rs0: "set rs \<subseteq> {0}" using Cons.prems(2) rets by auto
  have fit: "unat (hdr_size (x8h7_txb s)) + 4 + unat sz < X8H7_BUF_SIZE"
  proof (rule ccontr)
    assume "\<not> ?thesis"
    then have "x8h7_pkt_enq s p opc sz d = (- ENOMEM, s)"
      by (simp add: x8h7_pkt_enq_def sizeof_subpkt_def)
    with e r0 show False by (simp add: ENOMEM_def)
  qed
  have h: "holds (p, opc, sz, d)" and hs: "list_all holds cs" using Cons.prems(3) c by auto
  note A = enq_accept[OF fit, where p=p and opc=opc and d=d, unfolded e, simplified]
  have h1: "unat (hdr_size (x8h7_txb s1)) = unat (hdr_size (x8h7_txb s)) + 4 + unat sz"
    using fit A(2) by (simp add: X8H7_BUF_SIZE_def unat_word_ariths)
  have len: "length (subpkt c) = 4 + unat sz" using h c length_subpkt[of c] by simp
  note IH = Cons.IH[OF rest rs0 hs]
  let ?n = "length (concat (map subpkt cs))"
  have s1: "unat (hdr_size (x8h7_txb s')) = unat (hdr_size (x8h7_txb s)) + length (concat (map subpkt (c # cs)))"
    using IH h1 len by simp
  have s2: "unat (hdr_size (x8h7_txb s')) < X8H7_BUF_SIZE"
    using IH h1 fit by (cases "cs = []") auto
  have keep: "x8h7_txb s' i = x8h7_txb s1 i" if "4 + unat (hdr_size (x8h7_txb s)) \<le> i" "i < 4 + unat (hdr_size (x8h7_txb s1))" for i
    using IH that by auto
  have b1: "bytes (x8h7_txb s') (4 + unat (hdr_size (x8h7_txb s))) (4 + unat sz) = subpkt c"
  proof -
    have "bytes (x8h7_txb s') (4 + unat (hdr_size (x8h7_txb s))) (4 + unat sz)
        = bytes (x8h7_txb s1) (4 + unat (hdr_size (x8h7_txb s))) (4 + unat sz)"
      by (rule bytes_cong) (use keep h1 in auto)
    then show ?thesis using A(4)[OF h] c by simp
  qed
  have b2: "bytes (x8h7_txb s') (4 + unat (hdr_size (x8h7_txb s)) + (4 + unat sz)) ?n = concat (map subpkt cs)"
    using IH h1 by (simp add: add.assoc)
  have s3: "bytes (x8h7_txb s') (4 + unat (hdr_size (x8h7_txb s))) (length (concat (map subpkt (c # cs)))) = concat (map subpkt (c # cs))"
    using b1 b2 len by (simp add: bytes_add)
  have s4: "x8h7_txb s' i = x8h7_txb s i" if "4 \<le> i" "i < 4 + unat (hdr_size (x8h7_txb s)) \<or> 4 + unat (hdr_size (x8h7_txb s')) \<le> i" for i
  proof -
    have "x8h7_txb s' i = x8h7_txb s1 i" using IH that h1 s1 by auto
    also have "\<dots> = x8h7_txb s i" using A(3)[of i] that h1 s1 len by auto
    finally show ?thesis .
  qed
  show ?case using s1 s2 s3 s4 by blast
qed

text \<open>
  One round of the loop at the record of a call that lies inside the buffer: the
  sub-packet is dispatched, and the loop goes on behind it unless the size is used up.
\<close>

lemma parse_step:
  assumes rec: "bytes rxb pkt (4 + unat n) = subpkt (p, opc, n, d)"
    and h: "holds (p, opc, n, d)" and a: "addressed (p, opc, n, d)"
    and lo: "4 \<le> pkt" and hi: "pkt + 4 + unat n \<le> X8H7_BUF_SIZE"
  shows "pkt_parse_loop hooks rxb pkt sz calls
    = (if sz - (4 + n) \<noteq> 0
       then pkt_parse_loop hooks rxb (pkt + 4 + unat n) (sz - (4 + n))
              (calls @ dispatched hooks (p, opc, n, d))
       else (calls @ dispatched hooks (p, opc, n, d), Returned 0))"
proof -
  have lenp: "length (payload (p, opc, n, d)) = unat n"
    using h length_payload[of "(p, opc, n, d)"] by simp
  have "bytes rxb pkt 4 @ bytes rxb (pkt + 4) (unat n)
      = [p, opc, ucast n, ucast (drop_bit 8 n)] @ payload (p, opc, n, d)"
    using rec by (simp only: bytes_add subpkt.simps)
  then have hd4: "bytes rxb pkt 4 = [p, opc, ucast n, ucast (drop_bit 8 n)]"
    and pl: "bytes rxb (pkt + 4) (unat n) = payload (p, opc, n, d)"
    using append_eq_append_conv[of "bytes rxb pkt 4" "[p, opc, ucast n, ucast (drop_bit 8 n)]"]
    by simp_all
  have b: "rxb pkt = p" "rxb (pkt + 1) = opc" "rxb (pkt + 2) = ucast n"
    "rxb (pkt + 3) = ucast (drop_bit 8 n)"
    using hd4 unfolding bytes_4 by simp_all
  have e3: "pkt + 2 + 1 = pkt + 3" by simp
  have f: "rxb pkt = p" "rxb (pkt + 1) = opc" "load16 rxb (pkt + 2) = n"
    by (simp_all only: load16_def e3 b cat_split)
  have n248: "unat n \<le> X8H7_PKT_SIZE"
    using hi lo by (simp add: X8H7_PKT_SIZE_def X8H7_BUF_SIZE_def)
  have p0: "p \<noteq> 0" "n \<noteq> 0" "unat p < X8H7_PERIPH_NUM"
    using a by (auto simp: unat_gt_0)
  show ?thesis
    using f p0 n248 hi
    by (subst pkt_parse_loop.simps)
       (simp add: Let_def sizeof_subpkt_def pl split: option.splits)
qed

text \<open>The first of several records, and the records behind it.\<close>

lemma subpkts_Cons:
  assumes "bytes rxb pkt (length (concat (map subpkt ((p, opc, n, d) # cs))))
      = concat (map subpkt ((p, opc, n, d) # cs))"
    and "holds (p, opc, n, d)"
  shows "bytes rxb pkt (4 + unat n) = subpkt (p, opc, n, d)"
    and "bytes rxb (pkt + 4 + unat n) (length (concat (map subpkt cs))) = concat (map subpkt cs)"
    and "length (concat (map subpkt ((p, opc, n, d) # cs)))
      = 4 + unat n + length (concat (map subpkt cs))"
proof -
  let ?rest = "concat (map subpkt cs)"
  have len: "length (subpkt (p, opc, n, d)) = 4 + unat n"
    using assms(2) length_subpkt[of "(p, opc, n, d)"] by simp
  show L: "length (concat (map subpkt ((p, opc, n, d) # cs))) = 4 + unat n + length ?rest"
    using len by simp
  have E: "concat (map subpkt ((p, opc, n, d) # cs)) = subpkt (p, opc, n, d) @ ?rest"
    by simp
  note P = assms(1)[unfolded L, unfolded E]
  have "bytes rxb pkt (4 + unat n + length ?rest)
      = bytes rxb pkt (4 + unat n) @ bytes rxb (pkt + 4 + unat n) (length ?rest)"
    using bytes_add[of rxb pkt "4 + unat n" "length ?rest"] by (simp only: add.assoc)
  with P have "bytes rxb pkt (4 + unat n) @ bytes rxb (pkt + 4 + unat n) (length ?rest)
      = subpkt (p, opc, n, d) @ ?rest"
    by simp
  then show "bytes rxb pkt (4 + unat n) = subpkt (p, opc, n, d)"
    and "bytes rxb (pkt + 4 + unat n) (length ?rest) = ?rest"
    using len append_eq_append_conv[of "bytes rxb pkt (4 + unat n)" "subpkt (p, opc, n, d)"]
    by simp_all
qed

text \<open>
  Where the records of calls that fit the buffer lie, and the remaining size is their
  length, the loop dispatches them one by one and returns.
\<close>

lemma parse_subpkts:
  assumes "bytes rxb pkt (length (concat (map subpkt cs))) = concat (map subpkt cs)"
    and "cs \<noteq> []" "list_all holds cs" "list_all addressed cs"
    and "4 \<le> pkt" "pkt + length (concat (map subpkt cs)) \<le> X8H7_BUF_SIZE"
    and "sz = of_nat (length (concat (map subpkt cs)))"
  shows "pkt_parse_loop hooks rxb pkt sz calls
    = (calls @ concat (map (dispatched hooks) cs), Returned 0)"
  using assms
proof (induction cs arbitrary: pkt sz calls)
  case Nil
  then show ?case by simp
next
  case (Cons c cs)
  obtain p opc n d where c: "c = (p, opc, n, d)" by (cases c) auto
  let ?rest = "concat (map subpkt cs)"
  have h: "holds (p, opc, n, d)" and a: "addressed (p, opc, n, d)"
    using Cons.prems c by auto
  note S = subpkts_Cons[OF Cons.prems(1)[unfolded c] h]
  have bound: "pkt + 4 + unat n + length ?rest \<le> X8H7_BUF_SIZE"
    using Cons.prems(6) S(3) c by simp
  then have hi: "pkt + 4 + unat n \<le> X8H7_BUF_SIZE" by simp
  have szr: "sz - (4 + n) = of_nat (length ?rest)"
    using Cons.prems(7) S(3) c by simp
  have zero: "(of_nat (length ?rest) :: u16) = 0 \<longleftrightarrow> cs = []"
  proof
    assume z: "(of_nat (length ?rest) :: u16) = 0"
    have "length ?rest < 2 ^ 16" using bound by (simp add: X8H7_BUF_SIZE_def)
    then have "unat (of_nat (length ?rest) :: u16) = length ?rest"
      by (intro of_nat_inverse [OF refl]) simp
    then have "length ?rest = 0" using z by simp
    then show "cs = []" by (cases cs) (auto simp: neq_Nil_conv)
  qed simp
  note step = parse_step[OF S(1) h a Cons.prems(5) hi, of hooks sz calls, unfolded szr]
  show ?case
  proof (cases "cs = []")
    case True
    then show ?thesis using step c by simp
  next
    case False
    have "pkt_parse_loop hooks rxb (pkt + 4 + unat n) (of_nat (length ?rest))
            (calls @ dispatched hooks (p, opc, n, d))
        = ((calls @ dispatched hooks (p, opc, n, d)) @ concat (map (dispatched hooks) cs),
           Returned 0)"
      by (rule Cons.IH[OF S(2) False]) (use Cons.prems bound in simp_all)
    then show ?thesis using step zero False c by simp
  qed
qed

text \<open>The same with a terminator behind the records and a size that reaches beyond them.\<close>

lemma parse_until_terminator:
  assumes "bytes rxb pkt (length (concat (map subpkt cs))) = concat (map subpkt cs)"
    and "list_all holds cs" "list_all addressed cs"
    and "4 \<le> pkt"
    and "(pkt + length (concat (map subpkt cs)) < X8H7_BUF_SIZE
            \<and> rxb (pkt + length (concat (map subpkt cs))) = 0)
         \<or> (pkt + length (concat (map subpkt cs)) + sizeof_subpkt \<le> X8H7_BUF_SIZE
            \<and> unat (rxb (pkt + length (concat (map subpkt cs)))) < X8H7_PERIPH_NUM
            \<and> load16 rxb (pkt + length (concat (map subpkt cs)) + 2) = 0)"
    and "length (concat (map subpkt cs)) < unat sz"
  shows "pkt_parse_loop hooks rxb pkt sz calls
    = (calls @ concat (map (dispatched hooks) cs), Returned 0)"
  using assms
proof (induction cs arbitrary: pkt sz calls)
  case Nil
  then show ?case
    by (subst pkt_parse_loop.simps) (auto simp: Let_def sizeof_subpkt_def X8H7_PERIPH_NUM_def)
next
  case (Cons c cs)
  obtain p opc n d where c: "c = (p, opc, n, d)" by (cases c) auto
  let ?rest = "concat (map subpkt cs)"
  have h: "holds (p, opc, n, d)" and a: "addressed (p, opc, n, d)"
    using Cons.prems c by auto
  note S = subpkts_Cons[OF Cons.prems(1)[unfolded c] h]
  have L: "length (concat (map subpkt (c # cs))) = 4 + unat n + length ?rest"
    using S(3) c by simp
  have bound: "pkt + 4 + unat n + length ?rest < X8H7_BUF_SIZE"
    using Cons.prems(5) unfolding L by (auto simp: sizeof_subpkt_def)
  then have hi: "pkt + 4 + unat n \<le> X8H7_BUF_SIZE" by simp
  have more: "4 + unat n + length ?rest < unat sz"
    using Cons.prems(6) L by simp
  have n4: "unat (4 + n) = 4 + unat n"
    using bound by (simp add: unat_word_ariths X8H7_BUF_SIZE_def)
  have le: "4 + n \<le> sz"
    using more n4 by (simp add: word_le_nat_alt)
  have sub: "unat (sz - (4 + n)) = unat sz - (4 + unat n)"
    using unat_sub[OF le] n4 by simp
  then have nz: "sz - (4 + n) \<noteq> 0" and left: "length ?rest < unat (sz - (4 + n))"
    using more by (auto simp: unat_eq_0)
  note step = parse_step[OF S(1) h a Cons.prems(4) hi, of hooks sz calls]
  have "pkt_parse_loop hooks rxb (pkt + 4 + unat n) (sz - (4 + n))
          (calls @ dispatched hooks (p, opc, n, d))
      = ((calls @ dispatched hooks (p, opc, n, d)) @ concat (map (dispatched hooks) cs),
         Returned 0)"
  proof (rule Cons.IH[OF S(2) _ _ _ _ left])
    show "list_all holds cs" "list_all addressed cs" using Cons.prems by simp_all
    show "4 \<le> pkt + 4 + unat n" by simp
    show "(pkt + 4 + unat n + length ?rest < X8H7_BUF_SIZE
            \<and> rxb (pkt + 4 + unat n + length ?rest) = 0)
         \<or> (pkt + 4 + unat n + length ?rest + sizeof_subpkt \<le> X8H7_BUF_SIZE
            \<and> unat (rxb (pkt + 4 + unat n + length ?rest)) < X8H7_PERIPH_NUM
            \<and> load16 rxb (pkt + 4 + unat n + length ?rest + 2) = 0)"
      using Cons.prems(5) unfolding L by (simp add: add.assoc)
  qed
  then show ?case using step nz c by simp
qed

lemma bytes_memset: "bytes (memset m a c n) a n = replicate n c"
  by (rule nth_equalityI) (auto simp: memset_def)

lemma hdr_size_cong: "m 0 = m' 0 \<Longrightarrow> m 1 = m' 1 \<Longrightarrow> hdr_size m = hdr_size m'"
  by (simp add: hdr_size_def load16_def)

lemma looped_rxb: "i < X8H7_BUF_SIZE \<Longrightarrow> x8h7_rxb (looped s) i = x8h7_txb s i"
  by (simp add: looped_def x8h7_spi_trx_def loopback_def FIXED_PACKET_LEN_def memcpy_def)

lemma parse_loop_stop:
  "pkt < X8H7_BUF_SIZE \<Longrightarrow> rxb pkt = 0 \<Longrightarrow> pkt_parse_loop hooks rxb pkt sz calls = (calls, Returned 0)"
  by (subst pkt_parse_loop.simps) (simp add: Let_def X8H7_PERIPH_NUM_def)

text \<open>What \<^verbatim>\<open>x8h7_pkt_send\<close> returns, it returns with both buffers cleared.\<close>

lemma bytes_zero: "bytes (memset m 0 0 n) 0 n = replicate n 0"
  using bytes_memset[of m 0 0 n] by simp

lemma send_cleared:
  "x8h7_pkt_send hooks spi spidev = (calls, Returned (ret, spidev')) \<Longrightarrow> cleared spidev' \<and> ret = 0"
  by (auto simp: x8h7_pkt_send_def Let_def cleared_def bytes_zero
           split: prod.splits outcome.splits if_splits option.splits)

text \<open>
  The loop never looks at entry 0 of the hook table, and no hook call is for peripheral 0;
  both by induction on the distance of \<open>pkt\<close> from the end of the buffer.
\<close>

lemma parse_loop_hook0:
  "pkt_parse_loop (hooks\<lparr>x8h7_hook := (x8h7_hook hooks)(0 := h),
                          x8h7_hook_priv := (x8h7_hook_priv hooks)(0 := p)\<rparr>) rxb pkt sz calls
   = pkt_parse_loop hooks rxb pkt sz calls"
proof (induction "X8H7_BUF_SIZE - pkt" arbitrary: pkt sz calls rule: less_induct)
  case less
  let ?hooks' = "hooks\<lparr>x8h7_hook := (x8h7_hook hooks)(0 := h),
                          x8h7_hook_priv := (x8h7_hook_priv hooks)(0 := p)\<rparr>"
  have IH: "pkt_parse_loop ?hooks' rxb (pkt + sizeof_subpkt + n) sz' calls'
      = pkt_parse_loop hooks rxb (pkt + sizeof_subpkt + n) sz' calls'"
    if "pkt < X8H7_BUF_SIZE" for n sz' calls'
    by (rule less) (use that in \<open>simp add: sizeof_subpkt_def\<close>)
  show ?case
  proof (cases "pkt < X8H7_BUF_SIZE")
    case False
    then show ?thesis
      by (subst pkt_parse_loop.simps, subst (2) pkt_parse_loop.simps) simp
  next
    case True
    show ?thesis
    proof (cases "rxb pkt = 0")
      case z: True
      then show ?thesis using True
        by (simp add: parse_loop_stop)
    next
      case nz: False
      then have u: "unat (rxb pkt) \<noteq> 0" by (simp add: unat_eq_0)
      have a: "x8h7_hook ?hooks' (unat (rxb pkt)) = x8h7_hook hooks (unat (rxb pkt))"
        and b: "x8h7_hook_priv ?hooks' (unat (rxb pkt)) = x8h7_hook_priv hooks (unat (rxb pkt))"
        using u by simp_all
      show ?thesis
        by (subst pkt_parse_loop.simps, subst (2) pkt_parse_loop.simps)
           (simp only: Let_def a b IH[OF True])
    qed
  qed
qed

lemma parse_loop_not_hook0:
  "list_all not_hook0 calls \<Longrightarrow> list_all not_hook0 (fst (pkt_parse_loop hooks rxb pkt sz calls))"
proof (induction "X8H7_BUF_SIZE - pkt" arbitrary: pkt sz calls rule: less_induct)
  case less
  have IH: "list_all not_hook0 (fst (pkt_parse_loop hooks rxb (pkt + sizeof_subpkt + n) sz' calls'))"
    if "pkt < X8H7_BUF_SIZE" "list_all not_hook0 calls'" for n sz' calls'
    by (rule less(1)) (use that in \<open>simp_all add: sizeof_subpkt_def\<close>)
  show ?case
  proof (cases "pkt < X8H7_BUF_SIZE")
    case False
    then show ?thesis using less.prems
      by (subst pkt_parse_loop.simps) simp
  next
    case True
    show ?thesis
    proof (cases "rxb pkt = 0")
      case z: True
      then show ?thesis using True less.prems
        by (simp add: parse_loop_stop)
    next
      case nz: False
      let ?i = "unat (rxb pkt)"
      let ?psize = "load16 rxb (pkt + 2)"
      let ?p_size = "if X8H7_PKT_SIZE < unat ?psize then word_of_nat X8H7_PKT_SIZE else ?psize"
      let ?calls = "if ?i < X8H7_PERIPH_NUM
          then case x8h7_hook hooks ?i of None \<Rightarrow> calls
            | Some h \<Rightarrow> calls @ [Hook h (x8h7_hook_priv hooks ?i)
                \<lparr>pkt_peripheral = rxb pkt, pkt_opcode = rxb (pkt + 1), pkt_size = ?p_size,
                 pkt_data = bytes rxb (pkt + sizeof_subpkt) (unat ?p_size)\<rparr>]
          else calls"
      have c: "list_all not_hook0 ?calls"
        using less.prems nz by (simp split: option.splits)
      define C where "C = ?calls"
      define R where "R = pkt_parse_loop hooks rxb (pkt + sizeof_subpkt + unat ?psize) (sz - (4 + ?psize)) C"
      define P where "P r \<longleftrightarrow> fst r = calls \<or> fst r = C \<or> fst r = fst R"
        for r :: "('a, 'b) call list \<times> int outcome"
      have r: "list_all not_hook0 (fst R)"
        unfolding R_def by (rule IH[OF True]) (use c in \<open>simp add: C_def\<close>)
      have "P (pkt_parse_loop hooks rxb pkt sz calls)"
        apply (subst pkt_parse_loop.simps)
        apply (simp only: Let_def)
        apply (fold C_def)
        apply (fold R_def)
        apply (simp add: P_def)
        done
      then show ?thesis using less.prems c r by (auto simp: P_def C_def)
    qed
  qed
qed

lemma parse_loop_clamped:
  "list_all clamped calls \<Longrightarrow> list_all clamped (fst (pkt_parse_loop hooks rxb pkt sz calls))"
proof (induction "X8H7_BUF_SIZE - pkt" arbitrary: pkt sz calls rule: less_induct)
  case less
  have IH: "list_all clamped (fst (pkt_parse_loop hooks rxb (pkt + sizeof_subpkt + n) sz' calls'))"
    if "pkt < X8H7_BUF_SIZE" "list_all clamped calls'" for n sz' calls'
    by (rule less(1)) (use that in \<open>simp_all add: sizeof_subpkt_def\<close>)
  show ?case
  proof (cases "pkt < X8H7_BUF_SIZE")
    case False
    then show ?thesis using less.prems
      by (subst pkt_parse_loop.simps) simp
  next
    case True
    let ?i = "unat (rxb pkt)"
    let ?psize = "load16 rxb (pkt + 2)"
    let ?p_size = "if X8H7_PKT_SIZE < unat ?psize then word_of_nat X8H7_PKT_SIZE else ?psize"
    let ?calls = "if ?i < X8H7_PERIPH_NUM
        then case x8h7_hook hooks ?i of None \<Rightarrow> calls
          | Some h \<Rightarrow> calls @ [Hook h (x8h7_hook_priv hooks ?i)
              \<lparr>pkt_peripheral = rxb pkt, pkt_opcode = rxb (pkt + 1), pkt_size = ?p_size,
               pkt_data = bytes rxb (pkt + sizeof_subpkt) (unat ?p_size)\<rparr>]
        else calls"
    have k: "unat (word_of_nat X8H7_PKT_SIZE :: u16) \<le> X8H7_PKT_SIZE"
      by (simp add: X8H7_PKT_SIZE_def X8H7_BUF_SIZE_def)
    have c: "list_all clamped ?calls"
      using less.prems k by (auto split: option.splits)
    define C where "C = ?calls"
    define R where "R = pkt_parse_loop hooks rxb (pkt + sizeof_subpkt + unat ?psize) (sz - (4 + ?psize)) C"
    define P where "P r \<longleftrightarrow> fst r = calls \<or> fst r = C \<or> fst r = fst R"
      for r :: "('a, 'b) call list \<times> int outcome"
    have r: "list_all clamped (fst R)"
      unfolding R_def by (rule IH[OF True]) (use c in \<open>simp add: C_def\<close>)
    have "P (pkt_parse_loop hooks rxb pkt sz calls)"
      apply (subst pkt_parse_loop.simps)
      apply (simp only: Let_def)
      apply (fold C_def)
      apply (fold R_def)
      apply (simp add: P_def)
      done
    then show ?thesis using less.prems c r by (auto simp: P_def C_def)
  qed
qed

text \<open>
  What holds of claim C7: every copy handed to a hook is clamped to the length of
  \<^verbatim>\<open>p.data\<close>.
\<close>

lemma parse_copies_clamped: "list_all clamped (fst (pkt_parse hooks spidev))"
  unfolding pkt_parse_def by (rule parse_loop_clamped) simp

text \<open>
  The exchange returns unless no debug hook is set and \<^verbatim>\<open>pkt_parse\<close> reads outside
  the receive buffer.
\<close>

lemma send_returns:
  "snd (x8h7_pkt_send hooks spi spidev) = OutOfBounds a \<Longrightarrow>
     x8h7_dbg hooks = None
     \<and> snd (pkt_parse hooks (spidev\<lparr>x8h7_rxb :=
           snd (x8h7_spi_trx spi (x8h7_txb spidev) (x8h7_rxb spidev) FIXED_PACKET_LEN)\<rparr>))
         = OutOfBounds a"
  by (auto simp: x8h7_pkt_send_def Let_def
           split: prod.splits outcome.splits if_splits option.splits)

lemma returned_ex:
  "map_outcome fst (snd r) = Returned k \<Longrightarrow> \<exists>calls ret s'. r = (calls, Returned (ret, s'))"
proof -
  assume a: "map_outcome fst (snd r) = Returned k"
  obtain calls out where r: "r = (calls, out)" by (cases r)
  obtain x where "out = Returned x" using a r by (cases out) auto
  then show ?thesis using r by (cases x) auto
qed

subsection \<open>Enqueueing\<close>

text \<open>
  Claim C2. When \<^verbatim>\<open>hdr->size + sizeof(x8h7_subpkt_t) + size\<close> reaches the frame capacity,
  \<^verbatim>\<open>x8h7_pkt_enq\<close> returns \<^verbatim>\<open>-ENOMEM\<close> and the whole driver state, so the header and
  every queued byte of the outgoing buffer, is what it was: nothing is appended.
\<close>

theorem enq_rejected_unchanged:
  "X8H7_BUF_SIZE \<le> unat (hdr_size (x8h7_txb spidev)) + sizeof_subpkt + unat sz \<Longrightarrow>
     x8h7_pkt_enq spidev peripheral opcode sz data = (- ENOMEM, spidev)"
  by (simp add: x8h7_pkt_enq_def)

theorem enq_rejected_unchanged_witness:
  "X8H7_BUF_SIZE \<le> unat (hdr_size (x8h7_txb full)) + sizeof_subpkt + unat (0 :: u16)
   \<and> x8h7_pkt_enq full 4 2 0 None = (- 12, full)"
proof -
  have h: "X8H7_BUF_SIZE \<le> unat (hdr_size (x8h7_txb full)) + sizeof_subpkt + unat (0 :: u16)"
    by code_simp
  show ?thesis using h enq_rejected_unchanged[OF h, of 4 2 None] by (simp add: ENOMEM_def)
qed

text \<open>
  Claim C9. After an accepted \<^verbatim>\<open>x8h7_pkt_enq\<close> the header's checksum is its size XOR
  \<open>0x5555\<close>, whatever the buffer held before. In the scenario, peripheral 1 with opcode
  \<open>0x10\<close> and payload \<open>[0xAA, 0xBB]\<close>, then peripheral 2 with opcode 1 and no payload,
  both calls are accepted on the empty buffer and leave size 10 and checksum \<open>0x555F\<close>.
\<close>

theorem enq_checksum:
  "(fst (x8h7_pkt_enq spidev peripheral opcode sz data) = 0 \<longrightarrow>
      hdr_checksum (x8h7_txb (snd (x8h7_pkt_enq spidev peripheral opcode sz data)))
        = hdr_size (x8h7_txb (snd (x8h7_pkt_enq spidev peripheral opcode sz data))) XOR 0x5555)
   \<and> fst (enq_calls probed scenario) = [0, 0]
   \<and> hdr_size (x8h7_txb (snd (enq_calls probed scenario))) = 10
   \<and> hdr_checksum (x8h7_txb (snd (enq_calls probed scenario))) = 0x555F"
proof (intro conjI impI)
  assume "fst (x8h7_pkt_enq spidev peripheral opcode sz data) = 0"
  then have fit: "unat (hdr_size (x8h7_txb spidev)) + sizeof_subpkt + unat sz < X8H7_BUF_SIZE"
    by (auto simp: x8h7_pkt_enq_def Let_def ENOMEM_def split: if_splits)
  then show "hdr_checksum (x8h7_txb (snd (x8h7_pkt_enq spidev peripheral opcode sz data)))
        = hdr_size (x8h7_txb (snd (x8h7_pkt_enq spidev peripheral opcode sz data))) XOR 0x5555"
    by (simp add: x8h7_pkt_enq_def Let_def hdr_size_def hdr_checksum_def)
qed code_simp+

theorem enq_checksum_witness:
  "fst (x8h7_pkt_enq probed 1 0x10 2 (Some [0xAA, 0xBB])) = 0
   \<and> hdr_size (x8h7_txb (snd (x8h7_pkt_enq probed 1 0x10 2 (Some [0xAA, 0xBB])))) = 6
   \<and> hdr_checksum (x8h7_txb (snd (x8h7_pkt_enq probed 1 0x10 2 (Some [0xAA, 0xBB])))) = 0x5553"
proof -
  have h: "fst (x8h7_pkt_enq probed 1 0x10 2 (Some [0xAA, 0xBB])) = 0" by code_simp
  have s: "hdr_size (x8h7_txb (snd (x8h7_pkt_enq probed 1 0x10 2 (Some [0xAA, 0xBB])))) = 6" by code_simp
  show ?thesis using h s enq_checksum[of probed 1 "0x10" 2 "Some [0xAA, 0xBB]"] by simp
qed

text \<open>
  Claim C6, at the input where the code departs from it. On the empty buffer a payload of
  251 bytes passes the capacity test: \<^verbatim>\<open>x8h7_pkt_enq\<close> returns 0 and sets the header's
  size and \<^verbatim>\<open>x8h7_txl\<close> to 255, above \<open>X8H7_BUF_SIZE - 4\<close>, and the last three payload
  bytes are stored at the offsets 256 to 258, behind the buffer.
\<close>

theorem enq_overruns_buffer:
  "fst overrun = 0
   \<and> hdr_size (x8h7_txb (snd overrun)) = 255
   \<and> x8h7_txl (snd overrun) = 255
   \<and> bytes (x8h7_txb (snd overrun)) X8H7_BUF_SIZE 3 = [0x77, 0x77, 0x77]
   \<and> bytes (x8h7_txb probed) X8H7_BUF_SIZE 3 = [0, 0, 0]"
  by code_simp

subsection \<open>Round trip\<close>

text \<open>
  Claim C1, amended. Start from a cleared outgoing buffer and make any sequence of
  \<^verbatim>\<open>x8h7_pkt_enq\<close> calls, each for a peripheral from 1 to 15 with a payload that is not
  empty, none of them rejected, and let the frame built fit the buffer: header and
  sub-packets take at most \<open>X8H7_BUF_SIZE\<close> bytes. Then \<^verbatim>\<open>pkt_parse\<close> on that frame
  returns 0 and calls, in the order of the enqueue calls, the hook of each sub-packet's
  peripheral with the peripheral, opcode, size and payload enqueued; a sub-packet whose
  peripheral has no hook is passed over. (Each call passes an object of at least
  \<open>size\<close> bytes or a null pointer, as \<^verbatim>\<open>memcpy\<close> needs.)
\<close>

theorem enq_parse_roundtrip:
  assumes empty: "bytes (x8h7_txb spidev0) 0 X8H7_BUF_SIZE = replicate X8H7_BUF_SIZE 0"
    and calls: "enq_calls spidev0 cs = (rets, spidev)"
    and accepted: "set rets \<subseteq> {0}"
    and valid: "list_all addressed cs" "list_all holds cs"
    and fits: "sizeof_pkthdr + unat (hdr_size (x8h7_txb spidev)) \<le> X8H7_BUF_SIZE"
  shows "pkt_parse hooks (looped spidev) = (concat (map (dispatched hooks) cs), Returned 0)"
proof -
  let ?L = "length (concat (map subpkt cs))"
  have z: "x8h7_txb spidev0 i = 0" if "i < X8H7_BUF_SIZE" for i
  proof -
    have "bytes (x8h7_txb spidev0) 0 X8H7_BUF_SIZE ! i = replicate X8H7_BUF_SIZE 0 ! i"
      using empty by simp
    then show ?thesis using that by simp
  qed
  have h0: "hdr_size (x8h7_txb spidev0) = 0"
    using z[of 0] z[of 1] by (simp add: hdr_size_def load16_def X8H7_BUF_SIZE_def)
  note lay = enq_calls_layout[OF calls accepted valid(2), unfolded h0, simplified]
  have hs: "hdr_size (x8h7_rxb (looped spidev)) = hdr_size (x8h7_txb spidev)"
    by (rule hdr_size_cong) (simp_all add: looped_rxb X8H7_BUF_SIZE_def)
  show ?thesis
  proof (cases "cs = []")
    case True
    then have "spidev = spidev0" using calls by simp
    then have "x8h7_rxb (looped spidev) 4 = 0"
      using z[of 4] by (simp add: looped_rxb X8H7_BUF_SIZE_def)
    then show ?thesis using True
      by (simp add: pkt_parse_def sizeof_pkthdr_def parse_loop_stop X8H7_BUF_SIZE_def)
  next
    case False
    have L: "unat (hdr_size (x8h7_txb spidev)) = ?L" using lay by simp
    have b: "bytes (x8h7_rxb (looped spidev)) 4 ?L = concat (map subpkt cs)"
    proof -
      have "bytes (x8h7_rxb (looped spidev)) 4 ?L = bytes (x8h7_txb spidev) 4 ?L"
        by (rule bytes_cong) (use fits L in \<open>simp add: looped_rxb sizeof_pkthdr_def\<close>)
      then show ?thesis using lay by simp
    qed
    have w: "hdr_size (x8h7_txb spidev) = of_nat ?L"
      using of_nat_unat[of "hdr_size (x8h7_txb spidev)", where 'a="16 word"] L by simp
    have "pkt_parse_loop hooks (x8h7_rxb (looped spidev)) 4 (hdr_size (x8h7_txb spidev)) []
        = ([] @ concat (map (dispatched hooks) cs), Returned 0)"
      by (rule parse_subpkts[OF b False valid(2) valid(1) _ _ w])
         (use fits L in \<open>simp_all add: sizeof_pkthdr_def\<close>)
    then show ?thesis
      by (simp add: pkt_parse_def hs sizeof_pkthdr_def)
  qed
qed

theorem enq_parse_roundtrip_witness:
  "pkt_parse two_hooks (looped (snd (enq_calls probed two_calls)))
     = ([Hook 11 None \<lparr>pkt_peripheral = 1, pkt_opcode = 0x10, pkt_size = 2, pkt_data = [0xAA, 0xBB]\<rparr>,
         Hook 12 None \<lparr>pkt_peripheral = 2, pkt_opcode = 1, pkt_size = 3, pkt_data = [0, 0, 0]\<rparr>],
        Returned 0)"
proof -
  have e: "bytes (x8h7_txb probed) 0 X8H7_BUF_SIZE = replicate X8H7_BUF_SIZE 0"
    by (simp add: probed_def bytes_def X8H7_BUF_SIZE_def map_replicate_const)
  have c: "enq_calls probed two_calls = (fst (enq_calls probed two_calls), snd (enq_calls probed two_calls))"
    by simp
  have a: "set (fst (enq_calls probed two_calls)) \<subseteq> {0}" by code_simp
  have v: "list_all addressed two_calls" "list_all holds two_calls" by code_simp+
  have f: "sizeof_pkthdr + unat (hdr_size (x8h7_txb (snd (enq_calls probed two_calls)))) \<le> X8H7_BUF_SIZE"
    by code_simp
  have d: "concat (map (dispatched two_hooks) two_calls) = [Hook 11 None \<lparr>pkt_peripheral = 1, pkt_opcode = 0x10, pkt_size = 2, pkt_data = [0xAA, 0xBB]\<rparr>,
         Hook 12 None \<lparr>pkt_peripheral = 2, pkt_opcode = 1, pkt_size = 3, pkt_data = [0, 0, 0]\<rparr>]"
    by code_simp
  show ?thesis using enq_parse_roundtrip[OF e c a v f, of two_hooks] d by simp
qed

text \<open>
  The claim without the condition that the frame fits fails: a payload of 250 bytes for
  peripheral 1 is accepted on the empty buffer, and the hook then receives 248 bytes with
  size 248.
\<close>

theorem enq_parse_roundtrip_counterexample:
  "fst (enq_calls probed [oversize]) = [0]
   \<and> addressed oversize \<and> holds oversize
   \<and> pkt_parse two_hooks (looped (snd (enq_calls probed [oversize])))
       = ([Hook 11 None \<lparr>pkt_peripheral = 1, pkt_opcode = 0x10, pkt_size = 248,
                           pkt_data = replicate 248 0x77\<rparr>], Returned 0)
   \<and> dispatched two_hooks oversize
       = [Hook 11 None \<lparr>pkt_peripheral = 1, pkt_opcode = 0x10, pkt_size = 250,
                          pkt_data = replicate 250 0x77\<rparr>]
   \<and> pkt_parse two_hooks (looped (snd (enq_calls probed [oversize])))
       \<noteq> (concat (map (dispatched two_hooks) [oversize]), Returned 0)"
  by code_simp

subsection \<open>Parsing\<close>

text \<open>
  What holds of claim C8: wherever the loop of \<^verbatim>\<open>pkt_parse\<close> stands, it returns at
  once, with no hook call beyond those already made, when the record there has peripheral
  0, or has a peripheral below \<open>X8H7_PERIPH_NUM\<close> and size 0. So for a frame that holds
  the sub-packets of some calls (peripherals 1 to 15, payloads not empty), then such a
  record, and whose header's size reaches beyond the sub-packets, \<^verbatim>\<open>pkt_parse\<close>
  dispatches those sub-packets in order and nothing else, whatever bytes follow the
  record.
\<close>

lemma parse_stops_at_terminator:
  "(terminator rxb pkt \<longrightarrow> pkt_parse_loop hooks rxb pkt sz calls = (calls, Returned 0))
   \<and> (bytes (x8h7_rxb spidev) sizeof_pkthdr (length (concat (map subpkt cs)))
          = concat (map subpkt cs)
        \<and> list_all addressed cs \<and> list_all holds cs
        \<and> terminator (x8h7_rxb spidev) (sizeof_pkthdr + length (concat (map subpkt cs)))
        \<and> length (concat (map subpkt cs)) < unat (hdr_size (x8h7_rxb spidev))
      \<longrightarrow> pkt_parse hooks spidev = (concat (map (dispatched hooks) cs), Returned 0))"
proof (intro conjI impI)
  assume "terminator rxb pkt"
  then show "pkt_parse_loop hooks rxb pkt sz calls = (calls, Returned 0)"
    unfolding terminator_def
    by (subst pkt_parse_loop.simps) (auto simp: Let_def sizeof_subpkt_def X8H7_PERIPH_NUM_def)
next
  let ?L = "length (concat (map subpkt cs))"
  assume a: "bytes (x8h7_rxb spidev) sizeof_pkthdr ?L = concat (map subpkt cs)
        \<and> list_all addressed cs \<and> list_all holds cs
        \<and> terminator (x8h7_rxb spidev) (sizeof_pkthdr + ?L)
        \<and> ?L < unat (hdr_size (x8h7_rxb spidev))"
  have "pkt_parse_loop hooks (x8h7_rxb spidev) 4 (hdr_size (x8h7_rxb spidev)) []
      = ([] @ concat (map (dispatched hooks) cs), Returned 0)"
    by (rule parse_until_terminator)
       (use a in \<open>simp_all add: sizeof_pkthdr_def terminator_def\<close>)
  then show "pkt_parse hooks spidev = (concat (map (dispatched hooks) cs), Returned 0)"
    by (simp add: pkt_parse_def sizeof_pkthdr_def)
qed

lemma parse_stops_at_terminator_example:
  "terminator (x8h7_rxb (received terminated_frame)) 10
   \<and> pkt_parse_loop two_hooks (x8h7_rxb (received terminated_frame)) 10 10 [] = ([], Returned 0)
   \<and> pkt_parse two_hooks (received terminated_frame)
       = ([Hook 11 None \<lparr>pkt_peripheral = 1, pkt_opcode = 0x10, pkt_size = 2,
                          pkt_data = [0xAA, 0xBB]\<rparr>], Returned 0)"
proof -
  let ?rxb = "x8h7_rxb (received terminated_frame)"
  let ?cs = "[(1, 0x10, 2, Some [0xAA, 0xBB])] :: enq_args list"
  have t: "terminator ?rxb 10"
    by code_simp
  have h: "bytes ?rxb sizeof_pkthdr (length (concat (map subpkt ?cs))) = concat (map subpkt ?cs)
        \<and> list_all addressed ?cs \<and> list_all holds ?cs
        \<and> terminator ?rxb (sizeof_pkthdr + length (concat (map subpkt ?cs)))
        \<and> length (concat (map subpkt ?cs)) < unat (hdr_size ?rxb)"
    by code_simp
  have d: "concat (map (dispatched two_hooks) ?cs)
      = [Hook 11 None \<lparr>pkt_peripheral = 1, pkt_opcode = 0x10, pkt_size = 2,
                         pkt_data = [0xAA, 0xBB]\<rparr>]"
    by code_simp
  note T = parse_stops_at_terminator[of ?rxb 10 two_hooks 10 "[]" "received terminated_frame" ?cs]
  show ?thesis
    using t T[THEN conjunct1, THEN mp, OF t] T[THEN conjunct2, THEN mp, OF h] d
    by (simp only: simp_thms)
qed


text \<open>
  Claim C8, at the input where the code departs from it. The frame has size 10 with the
  matching checksum; its first record has peripheral 16 and size 0, and a sub-packet for
  peripheral 1 follows. \<^verbatim>\<open>pkt_parse\<close> tests for the end of the frame only under
  \<^verbatim>\<open>i < X8H7_PERIPH_NUM\<close>, so it does not stop at the record with size 0: the
  sub-packet behind it is dispatched to the hook of peripheral 1.
\<close>

theorem zero_size_record_skipped:
  "hdr_size (x8h7_rxb (received skipped_frame)) = 10
   \<and> hdr_checksum (x8h7_rxb (received skipped_frame)) = 10 XOR 0x5555
   \<and> x8h7_rxb (received skipped_frame) 4 = 16
   \<and> load16 (x8h7_rxb (received skipped_frame)) (4 + 2) = 0
   \<and> pkt_parse two_hooks (received skipped_frame)
       = ([Hook 11 None \<lparr>pkt_peripheral = 1, pkt_opcode = 0x10, pkt_size = 2,
                          pkt_data = [0xAA, 0xBB]\<rparr>], Returned 0)
   \<and> fst (x8h7_pkt_send_now two_hooks (\<lambda>tx. (0, skipped_frame)) probed)
       = [Hook 11 None \<lparr>pkt_peripheral = 1, pkt_opcode = 0x10, pkt_size = 2,
                         pkt_data = [0xAA, 0xBB]\<rparr>]"
  by code_simp

text \<open>
  Claim C7, at the input where the code departs from it. The frame has a header with a
  matching checksum and a size of 256, and a sub-packet of 248 bytes that ends with the
  buffer: \<^verbatim>\<open>pkt_parse\<close> goes on to read the next record at offset 256, outside the
  receive buffer.
\<close>

theorem parse_reads_past_buffer:
  "length overlong_frame = X8H7_BUF_SIZE
   \<and> hdr_checksum (x8h7_rxb (received overlong_frame))
       = hdr_size (x8h7_rxb (received overlong_frame)) XOR 0x5555
   \<and> snd (pkt_parse two_hooks (received overlong_frame)) = OutOfBounds 256
   \<and> map_outcome fst (snd (x8h7_pkt_send_now two_hooks (\<lambda>tx. (0, overlong_frame)) probed))
       = OutOfBounds 256"
  by code_simp

subsection \<open>The exchange\<close>

text \<open>
  Claim C3, at the input where the code departs from it. The frame received has size 6 and
  checksum 0, not \<open>0x5553\<close>: \<^verbatim>\<open>x8h7_pkt_send\<close> still dispatches its sub-packet to the
  hook of peripheral 1, and hands the frame to the debug hook when one is set.
\<close>

theorem bad_checksum_dispatched:
  "hdr_size (x8h7_rxb (received bad_checksum_frame)) = 6
   \<and> hdr_checksum (x8h7_rxb (received bad_checksum_frame)) = 0
   \<and> fst (x8h7_pkt_send_now two_hooks (\<lambda>tx. (0, bad_checksum_frame)) probed)
       = [Hook 11 None \<lparr>pkt_peripheral = 1, pkt_opcode = 0x10, pkt_size = 2,
                         pkt_data = [0xAA, 0xBB]\<rparr>]
   \<and> fst (x8h7_pkt_send_now tapped (\<lambda>tx. (0, bad_checksum_frame)) probed)
       = [Dbg 99 None bad_checksum_frame 6]"
  by code_simp

text \<open>
  Claim C4, at the input where the code departs from it. The transfer fails and
  \<^verbatim>\<open>x8h7_spi_trx\<close> returns -5, yet \<^verbatim>\<open>x8h7_pkt_send_now\<close> and
  \<^verbatim>\<open>x8h7_pkt_send_sync\<close> return 0.
\<close>

theorem transfer_failure_dropped:
  "fst (x8h7_spi_trx broken_spi (x8h7_txb probed) (x8h7_rxb probed) FIXED_PACKET_LEN) = - 5
   \<and> map_outcome fst (snd (x8h7_pkt_send_now two_hooks broken_spi probed)) = Returned 0
   \<and> map_outcome fst
        (snd (x8h7_pkt_send_sync two_hooks broken_spi probed 1 0x10 2 (Some [0xAA, 0xBB])))
       = Returned 0"
  by code_simp

text \<open>
  What holds of claim C5: whenever \<^verbatim>\<open>x8h7_pkt_send_now\<close>, \<^verbatim>\<open>x8h7_threaded_isr\<close> or
  \<^verbatim>\<open>x8h7_pkt_send_sync\<close> (its enqueue accepted, so that the exchange takes place)
  returns, both buffers hold zeros only and \<^verbatim>\<open>x8h7_txl\<close> is 0, whatever the transfer
  reported or delivered and whatever was dispatched.
\<close>

lemma exchange_clears_buffers:
  "(x8h7_pkt_send_now hooks spi spidev = (calls, Returned (ret, spidev')) \<longrightarrow> cleared spidev')
   \<and> (x8h7_threaded_isr hooks spi spidev = (calls, Returned (ret, spidev')) \<longrightarrow> cleared spidev')
   \<and> (x8h7_pkt_send_sync hooks spi spidev peripheral opcode sz data
         = (calls, Returned (ret, spidev')) \<and> 0 \<le> ret \<longrightarrow> cleared spidev')"
proof (intro conjI impI)
  assume "x8h7_pkt_send_now hooks spi spidev = (calls, Returned (ret, spidev'))"
  then show "cleared spidev'"
    using send_cleared by (simp add: x8h7_pkt_send_now_def) blast
next
  assume "x8h7_threaded_isr hooks spi spidev = (calls, Returned (ret, spidev'))"
  then show "cleared spidev'"
    using send_cleared[of hooks spi spidev]
    by (auto simp: x8h7_threaded_isr_def split: prod.splits outcome.splits)
next
  assume a: "x8h7_pkt_send_sync hooks spi spidev peripheral opcode sz data
         = (calls, Returned (ret, spidev')) \<and> 0 \<le> ret"
  obtain r s1 where e: "x8h7_pkt_enq spidev peripheral opcode sz data = (r, s1)"
    by (cases "x8h7_pkt_enq spidev peripheral opcode sz data") auto
  show "cleared spidev'"
    using a e send_cleared[of hooks spi s1]
    by (auto simp: x8h7_pkt_send_sync_def split: prod.splits outcome.splits if_splits)
qed

lemma exchange_clears_buffers_example:
  "(\<exists>calls ret spidev'.
      x8h7_pkt_send_now two_hooks late_failure (snd (enq_calls probed two_calls))
        = (calls, Returned (ret, spidev')) \<and> cleared spidev')
   \<and> (\<exists>calls ret spidev'.
      x8h7_threaded_isr two_hooks late_failure (snd (enq_calls probed two_calls))
        = (calls, Returned (ret, spidev')) \<and> cleared spidev')
   \<and> (\<exists>calls ret spidev'.
      x8h7_pkt_send_sync two_hooks late_failure probed 1 0x10 2 (Some [0xAA, 0xBB])
        = (calls, Returned (ret, spidev')) \<and> 0 \<le> ret \<and> cleared spidev')"
proof -
  have w1: "map_outcome fst (snd (x8h7_pkt_send_now two_hooks late_failure
      (snd (enq_calls probed two_calls)))) = Returned 0"
    by code_simp
  have w2: "map_outcome fst (snd (x8h7_threaded_isr two_hooks late_failure
      (snd (enq_calls probed two_calls)))) = Returned 1"
    by code_simp
  have w3: "map_outcome fst (snd (x8h7_pkt_send_sync two_hooks late_failure probed 1 0x10 2
      (Some [0xAA, 0xBB]))) = Returned 0"
    by code_simp
  obtain c1 r1 s1 where
    e1: "x8h7_pkt_send_now two_hooks late_failure (snd (enq_calls probed two_calls)) = (c1, Returned (r1, s1))"
    using returned_ex[OF w1] by blast
  obtain c2 r2 s2 where
    e2: "x8h7_threaded_isr two_hooks late_failure (snd (enq_calls probed two_calls)) = (c2, Returned (r2, s2))"
    using returned_ex[OF w2] by blast
  obtain c3 r3 s3 where
    e3: "x8h7_pkt_send_sync two_hooks late_failure probed 1 0x10 2 (Some [0xAA, 0xBB]) = (c3, Returned (r3, s3))"
    using returned_ex[OF w3] by blast
  have "map_outcome fst (Returned (r3, s3)) = Returned 0"
    using w3 unfolding e3 snd_conv .
  then have r3: "0 \<le> r3" by simp
  have k1: "cleared s1"
    by (rule exchange_clears_buffers[THEN conjunct1, THEN mp, OF e1])
  have k2: "cleared s2"
    by (rule exchange_clears_buffers[THEN conjunct2, THEN conjunct1, THEN mp, OF e2])
  have k3: "cleared s3"
    by (rule exchange_clears_buffers[THEN conjunct2, THEN conjunct2, THEN mp, OF conjI[OF e3 r3]])
  show ?thesis
  proof (intro conjI)
    show "\<exists>calls ret spidev'.
      x8h7_pkt_send_now two_hooks late_failure (snd (enq_calls probed two_calls))
        = (calls, Returned (ret, spidev')) \<and> cleared spidev'"
      using e1 k1 by blast
    show "\<exists>calls ret spidev'.
      x8h7_threaded_isr two_hooks late_failure (snd (enq_calls probed two_calls))
        = (calls, Returned (ret, spidev')) \<and> cleared spidev'"
      using e2 k2 by blast
    show "\<exists>calls ret spidev'.
      x8h7_pkt_send_sync two_hooks late_failure probed 1 0x10 2 (Some [0xAA, 0xBB])
        = (calls, Returned (ret, spidev')) \<and> 0 \<le> ret \<and> cleared spidev'"
      using e3 k3 r3 by blast
  qed
qed







subsection \<open>The hook table\<close>

text \<open>
  Claim C10. \<^verbatim>\<open>x8h7_hook_set\<close> returns 0 and stores the hook and its \<^verbatim>\<open>priv\<close> exactly
  when the index is below \<open>X8H7_PERIPH_NUM\<close>, and returns -1 and stores nothing
  otherwise; index 0 is accepted. What is stored at index 0 makes no difference to
  \<^verbatim>\<open>pkt_parse\<close>, and no hook call of \<^verbatim>\<open>pkt_parse\<close> is for peripheral 0: a hook at index
  0 is never called.
\<close>

theorem hook0_never_called:
  "x8h7_hook_set hooks idx hook priv
     = (if unat idx < X8H7_PERIPH_NUM
        then (0, hooks\<lparr>x8h7_hook := (x8h7_hook hooks)(unat idx := hook),
                        x8h7_hook_priv := (x8h7_hook_priv hooks)(unat idx := priv)\<rparr>)
        else (- 1, hooks))
   \<and> fst (x8h7_hook_set hooks 0 hook priv) = 0
   \<and> x8h7_hook (snd (x8h7_hook_set hooks 0 hook priv)) 0 = hook
   \<and> pkt_parse (snd (x8h7_hook_set hooks 0 hook priv)) spidev = pkt_parse hooks spidev
   \<and> list_all not_hook0 (fst (pkt_parse hooks spidev))"
proof (intro conjI)
  show "x8h7_hook_set hooks idx hook priv
     = (if unat idx < X8H7_PERIPH_NUM
        then (0, hooks\<lparr>x8h7_hook := (x8h7_hook hooks)(unat idx := hook),
                        x8h7_hook_priv := (x8h7_hook_priv hooks)(unat idx := priv)\<rparr>)
        else (- 1, hooks))"
    by (simp add: x8h7_hook_set_def not_le)
  have s0: "x8h7_hook_set hooks 0 hook priv
      = (0, hooks\<lparr>x8h7_hook := (x8h7_hook hooks)(0 := hook),
                    x8h7_hook_priv := (x8h7_hook_priv hooks)(0 := priv)\<rparr>)"
    by (simp add: x8h7_hook_set_def X8H7_PERIPH_NUM_def)
  show "fst (x8h7_hook_set hooks 0 hook priv) = 0"
    and "x8h7_hook (snd (x8h7_hook_set hooks 0 hook priv)) 0 = hook"
    by (simp_all only: s0 fst_conv snd_conv) simp
  show "pkt_parse (snd (x8h7_hook_set hooks 0 hook priv)) spidev = pkt_parse hooks spidev"
    by (simp only: s0 snd_conv pkt_parse_def parse_loop_hook0)
  show "list_all not_hook0 (fst (pkt_parse hooks spidev))"
    unfolding pkt_parse_def by (rule parse_loop_not_hook0) simp
qed

end
